theory Spec2Isabelle
  imports Main "HOL-Library.Multiset"
begin

section \<open>The renderer body of Zettlr: recent documents, quicklooks, notifications\<close>

text \<open>
  A shallow embedding of the stateful part of the class \<^verbatim>\<open>ZettlrBody\<close>
  (\<^verbatim>\<open>source/renderer/zettlr-body.js\<close>): the bounded list of recent documents, the
  arrays of open quicklook windows and of notifications, and the rename prompt that sends
  on the \<^verbatim>\<open>file-rename\<close> channel. Every method takes the object's state and returns
  the new one; a method that contains a \<^verbatim>\<open>while\<close> loop returns an option, and
  \<open>None\<close> is a call that never returns.
\<close>

subsection \<open>JavaScript arrays\<close>

text \<open>
  \<^verbatim>\<open>Array.prototype.indexOf\<close>: the first index whose element is strictly equal to the
  argument, and \<open>-1\<close> when there is none.
\<close>

fun indexOf :: "'a \<Rightarrow> 'a list \<Rightarrow> int" where
  "indexOf x [] = - 1"
| "indexOf x (y # ys) =
     (if y = x then 0
      else (let i = indexOf x ys in if i > - 1 then i + 1 else - 1))"

text \<open>
  \<^verbatim>\<open>Array.prototype.splice(start, deleteCount)\<close>, the array it leaves behind. A negative
  \<^verbatim>\<open>start\<close> counts from the end of the array (so \<^verbatim>\<open>splice(-1, 1)\<close> would remove the
  last element), a \<^verbatim>\<open>start\<close> beyond the end is clamped to the length.
\<close>

definition splice :: "int \<Rightarrow> nat \<Rightarrow> 'a list \<Rightarrow> 'a list" where
  "splice start deleteCount xs =
     (let len = int (length xs);
          from = (if start < 0 then max (len + start) 0 else min start len)
      in take (nat from) xs @ drop (nat from + deleteCount) xs)"

text \<open>\<^verbatim>\<open>push\<close> appends at the end.\<close>

definition push :: "'a \<Rightarrow> 'a list \<Rightarrow> 'a list" where
  "push x xs = xs @ [x]"

text \<open>
  \<^verbatim>\<open>shift\<close> removes the first element; on an empty array it removes nothing (it
  returns \<^verbatim>\<open>undefined\<close> and the array stays empty).
\<close>

definition shift :: "'a list \<Rightarrow> 'a list" where
  "shift xs = (case xs of [] \<Rightarrow> [] | _ # rest \<Rightarrow> rest)"

subsection \<open>The state of a ZettlrBody\<close>

text \<open>
  Of a \<^verbatim>\<open>ZettlrFile\<close> the body reads the fields \<^verbatim>\<open>hash\<close> (a number) and
  \<^verbatim>\<open>name\<close>. An entry of the recent-documents list is the object
  \<^verbatim>\<open>{ 'hash': file.hash, 'name': file.name }\<close>, which has the same two fields. Each
  entry is a fresh object; \<^verbatim>\<open>indexOf(found)\<close> is only ever called with the first entry
  whose hash matches, and no entry before that one can be equal to it (it would match
  too), so comparing entries by their fields finds the same index as comparing the objects.
\<close>

record ZettlrFile =
  hash :: int
  name :: string

text \<open>
  Quicklook windows and notifications are objects made by \<^verbatim>\<open>new\<close>; an array holds
  references to them and \<^verbatim>\<open>indexOf\<close> compares references. A handle is such a
  reference.
\<close>

type_synonym handle = nat

text \<open>
  The fields \<^verbatim>\<open>this._ql\<close>, \<^verbatim>\<open>this._n\<close>, \<^verbatim>\<open>this._recentDocs\<close> and
  \<^verbatim>\<open>this._numRecentDocs\<close>. The capacity is a JavaScript number, so
  \<^verbatim>\<open>this._numRecentDocs - 1\<close> can be negative: it is an \<open>int\<close>, not a \<open>nat\<close>.
\<close>

record ZettlrBody =
  this_ql :: "handle list"
  this_n :: "handle list"
  this_recentDocs :: "ZettlrFile list"
  this_numRecentDocs :: int

text \<open>
  The constructor:
  \<^verbatim>\<open>this._ql = []; this._n = []; this._recentDocs = []; this._numRecentDocs = 10\<close>.
\<close>

definition ZettlrBody_constructor :: ZettlrBody where
  "ZettlrBody_constructor =
     \<lparr>this_ql = [], this_n = [], this_recentDocs = [], this_numRecentDocs = 10\<rparr>"

subsection \<open>addRecentDocument\<close>

text \<open>
  The eviction loop of \<^verbatim>\<open>addRecentDocument\<close>:
  \<^verbatim>\<open>while (this._recentDocs.length > this._numRecentDocs - 1) { this._recentDocs.shift() }\<close>.
  Nothing in the loop bounds the number of rounds, so it is a partial function: \<open>None\<close>
  is a loop that never exits.
\<close>

partial_function (option) evict :: "ZettlrBody \<Rightarrow> ZettlrBody option" where
  "evict s =
     (if int (length (this_recentDocs s)) > this_numRecentDocs s - 1
      then evict (s\<lparr>this_recentDocs := shift (this_recentDocs s)\<rparr>)
      else Some s)"

declare evict.simps [code]

text \<open>
  \<^verbatim>\<open>addRecentDocument (file)\<close>: \<^verbatim>\<open>find\<close> the first entry with the file's hash; if
  there is one, splice it out at its \<^verbatim>\<open>indexOf\<close>, push it again and return. Otherwise
  run the eviction loop and push a new entry made of the file's hash and name.
\<close>

definition addRecentDocument :: "ZettlrFile \<Rightarrow> ZettlrBody \<Rightarrow> ZettlrBody option" where
  "addRecentDocument file s =
     (case List.find (\<lambda>elem. hash elem = hash file) (this_recentDocs s) of
        Some found \<Rightarrow>
          Some (s\<lparr>this_recentDocs :=
                   push found (splice (indexOf found (this_recentDocs s)) 1 (this_recentDocs s))\<rparr>)
      | None \<Rightarrow>
          (case evict s of
             None \<Rightarrow> None
           | Some s' \<Rightarrow>
               Some (s'\<lparr>this_recentDocs :=
                        push \<lparr>hash = hash file, name = name file\<rparr> (this_recentDocs s')\<rparr>)))"

text \<open>
  A sequence of calls of \<^verbatim>\<open>addRecentDocument\<close>, one per file and in the order of the
  list, on the same body. A call that does not return ends the sequence.
\<close>

fun recordAll :: "ZettlrFile list \<Rightarrow> ZettlrBody \<Rightarrow> ZettlrBody option" where
  "recordAll [] s = Some s"
| "recordAll (file # files) s =
     (case addRecentDocument file s of
        None \<Rightarrow> None
      | Some s' \<Rightarrow> recordAll files s')"

text \<open>
  The invariant of the recent-documents list for a capacity \<open>c\<close>: the capacity field is
  \<open>c\<close>, the list holds at most \<open>c\<close> entries, and the hashes of the entries are
  pairwise different.
\<close>

definition recent_inv :: "int \<Rightarrow> ZettlrBody \<Rightarrow> bool" where
  "recent_inv c s =
     (this_numRecentDocs s = c \<and> int (length (this_recentDocs s)) \<le> c
      \<and> distinct (map hash (this_recentDocs s)))"

subsection \<open>Quicklook windows\<close>

text \<open>
  \<^verbatim>\<open>quicklook (file)\<close> pushes \<^verbatim>\<open>new ZettlrQuicklook(this, file, false)\<close>; \<open>zql\<close>
  is the reference of the new object.
\<close>

definition quicklook :: "handle \<Rightarrow> ZettlrBody \<Rightarrow> ZettlrBody" where
  "quicklook zql s = s\<lparr>this_ql := push zql (this_ql s)\<rparr>"

text \<open>
  \<^verbatim>\<open>qlsplice (zql)\<close>: when \<^verbatim>\<open>indexOf\<close> finds the quicklook
  (\<^verbatim>\<open>index > -1\<close>), splice it out and return true; otherwise return false. The
  result is the returned boolean and the body after the call.
\<close>

definition qlsplice :: "handle \<Rightarrow> ZettlrBody \<Rightarrow> bool \<times> ZettlrBody" where
  "qlsplice zql s =
     (let index = indexOf zql (this_ql s)
      in if index > - 1
         then (True, s\<lparr>this_ql := splice index 1 (this_ql s)\<rparr>)
         else (False, s))"

text \<open>
  \<^verbatim>\<open>closeQuicklook ()\<close>:
  \<^verbatim>\<open>while (this._ql.length > 0) { this._ql[0].close() }\<close>. The loop itself removes
  nothing; it relies on what \<^verbatim>\<open>close\<close> does to the body. The class
  \<^verbatim>\<open>ZettlrQuicklook\<close> is in another file, so the effect of \<^verbatim>\<open>close()\<close> of a quicklook
  on the body is the parameter \<open>close\<close>. \<open>None\<close> is a loop that never exits.
\<close>

partial_function (option) closeQuicklook ::
  "(handle \<Rightarrow> ZettlrBody \<Rightarrow> ZettlrBody) \<Rightarrow> ZettlrBody \<Rightarrow> ZettlrBody option" where
  "closeQuicklook close s =
     (if length (this_ql s) > 0
      then closeQuicklook close (close (this_ql s ! 0) s)
      else Some s)"

declare closeQuicklook.simps [code]

text \<open>
  Modelled from the spec: \<^verbatim>\<open>ZettlrQuicklook.close\<close> (\<^verbatim>\<open>zettlr-quicklook.js\<close> is not
  among the sources). The spec has each closed overlay's own teardown path call
  \<^verbatim>\<open>remove\<close>, synchronously; the comment in \<^verbatim>\<open>closeQuicklook\<close> says the same
  (\<^verbatim>\<open>QuickLooks splice themselves from the array\<close>). So closing a quicklook calls
  \<^verbatim>\<open>qlsplice\<close> with itself and drops the returned boolean.
\<close>

definition ZettlrQuicklook_close :: "handle \<Rightarrow> ZettlrBody \<Rightarrow> ZettlrBody" where
  "ZettlrQuicklook_close zql s = snd (qlsplice zql s)"

subsection \<open>Notifications\<close>

text \<open>
  What a notification receives from the body: the call \<^verbatim>\<open>msg.moveUp()\<close>. The class
  \<^verbatim>\<open>ZettlrNotification\<close> is in another file; a call of \<^verbatim>\<open>moveUp\<close> is recorded as a
  signal to its receiver and has no effect on the body.
\<close>

datatype signal = MoveUp handle

text \<open>
  \<^verbatim>\<open>notify (message)\<close> pushes \<^verbatim>\<open>new ZettlrNotification(this, message)\<close>; \<open>ntf\<close>
  is the reference of the new object.
\<close>

definition notify :: "handle \<Rightarrow> ZettlrBody \<Rightarrow> ZettlrBody" where
  "notify ntf s = s\<lparr>this_n := push ntf (this_n s)\<rparr>"

text \<open>
  \<^verbatim>\<open>notifySplice (ntf)\<close>:
  \<^verbatim>\<open>let index = this._n.indexOf(ntf); if (index > -1) this._n.splice(index, 1);
  for (let msg of this._n) msg.moveUp()\<close>.
  The result is the body after the call and the signals sent, in the order of sending.
\<close>

definition notifySplice :: "handle \<Rightarrow> ZettlrBody \<Rightarrow> ZettlrBody \<times> signal list" where
  "notifySplice ntf s =
     (let index = indexOf ntf (this_n s);
          s' = (if index > - 1 then s\<lparr>this_n := splice index 1 (this_n s)\<rparr> else s)
      in (s', map MoveUp (this_n s')))"

subsection \<open>The rename prompt\<close>

text \<open>
  The callback of a popup receives the submitted form, an array of fields with a
  \<^verbatim>\<open>name\<close> and a \<^verbatim>\<open>value\<close> each, or \<^verbatim>\<open>undefined\<close>. An array is truthy even
  when it is empty, and \<^verbatim>\<open>form[0].value\<close> on an empty array is a TypeError.
\<close>

datatype js_error = TypeError

datatype form_field = Field (field_name: string) (field_value: string)

datatype form_value = Undefined | Form "form_field list"

text \<open>
  A message on the IPC channel, \<^verbatim>\<open>global.ipc.send(channel, payload)\<close>: the channel
  name and the payload \<^verbatim>\<open>{ 'name': ..., 'hash': ... }\<close>.
\<close>

record payload =
  payload_name :: string
  payload_hash :: int

type_synonym ipc_message = "string \<times> payload"

text \<open>
  The element the popup is anchored to: \<^verbatim>\<open>$('.button.file-rename')\<close>, the list item
  of the file in \<^verbatim>\<open>#preview\<close>, or its \<^verbatim>\<open>div\<close> in \<^verbatim>\<open>#directories\<close>. Of the
  renderer the method reads the current file (possibly \<^verbatim>\<open>null\<close>); of the document,
  whether \<^verbatim>\<open>#preview\<close> has a list item with the file's hash.
\<close>

datatype anchor = ButtonFileRename | PreviewItem int | DirectoriesItem int

record ZettlrRenderer =
  getCurrentFile :: "ZettlrFile option"
  previewHashes :: "int list"

text \<open>
  The content \<^verbatim>\<open>makeTemplate('popup', 'textfield', { 'val': ..., 'placeholder': ... })\<close>;
  the placeholder is the translation of a fixed key, kept here as the key.
\<close>

record textfield =
  val :: string
  placeholder :: string

text \<open>
  \<^verbatim>\<open>requestNewFileName (file)\<close>: choose the anchor, render the text field with the file's
  name, and open a popup with the callback
  \<^verbatim>\<open>(form) => { if (form) { global.ipc.send('file-rename', { 'name': form[0].value, 'hash': file.hash }) } }\<close>.
  The function \<^verbatim>\<open>popup\<close> is in another file and is a parameter here; the result is
  the list of messages sent on the channel, or the error thrown.
\<close>

definition requestNewFileName ::
  "(anchor \<Rightarrow> textfield \<Rightarrow> (form_value \<Rightarrow> js_error + ipc_message list)
      \<Rightarrow> js_error + ipc_message list)
     \<Rightarrow> ZettlrRenderer \<Rightarrow> ZettlrFile \<Rightarrow> js_error + ipc_message list" where
  "requestNewFileName popup renderer file =
     (let elem =
            (if (case getCurrentFile renderer of
                   None \<Rightarrow> False
                 | Some current \<Rightarrow> hash current = hash file)
             then ButtonFileRename
             else if hash file \<in> set (previewHashes renderer)
                  then PreviewItem (hash file)
                  else DirectoriesItem (hash file));
          cnt = \<lparr>val = name file, placeholder = ''dialog.file_rename.placeholder''\<rparr>
      in popup elem cnt
           (\<lambda>form. case form of
                Undefined \<Rightarrow> Inr []
              | Form inputs \<Rightarrow>
                  (case inputs of
                     [] \<Rightarrow> Inl TypeError
                   | f # _ \<Rightarrow>
                       Inr [(''file-rename'',
                             \<lparr>payload_name = field_value f, payload_hash = hash file\<rparr>)])))"

text \<open>
  Modelled from the spec: \<^verbatim>\<open>popup\<close> (\<^verbatim>\<open>zettlr-popup.js\<close> is not among the sources).
  The spec has the overlay-presentation collaborator take an anchor, the content and a
  completion callback, and call the callback with the user-submitted form values, or with
  \<^verbatim>\<open>undefined\<close> if the popup is dismissed without submission. It sends nothing on the
  channel itself. What the user does is the first argument.
\<close>

datatype user_action = Submit "form_field list" | Dismiss

definition popup ::
  "user_action \<Rightarrow> anchor \<Rightarrow> textfield \<Rightarrow> (form_value \<Rightarrow> js_error + ipc_message list)
     \<Rightarrow> js_error + ipc_message list" where
  "popup action elem cnt callback =
     (case action of
        Submit inputs \<Rightarrow> callback (Form inputs)
      | Dismiss \<Rightarrow> callback Undefined)"

section \<open>Properties of the array primitives\<close>

lemma indexOf_present_iff: "(indexOf x xs > - 1) = (x \<in> set xs)"
  by (induction xs) (auto simp: Let_def)

lemma indexOf_absent: "x \<notin> set xs \<Longrightarrow> indexOf x xs = - 1"
  by (induction xs) (auto simp: Let_def)

lemma splice_step: "0 \<le> i \<Longrightarrow> splice (i + 1) k (y # ys) = y # splice i k ys"
  by (simp add: splice_def Let_def nat_add_distrib min_def)

text \<open>Splicing one element out at the index of \<open>x\<close> removes the first occurrence of \<open>x\<close>.\<close>

lemma splice_indexOf: "x \<in> set xs \<Longrightarrow> splice (indexOf x xs) (Suc 0) xs = remove1 x xs"
proof (induction xs)
  case Nil
  then show ?case by simp
next
  case (Cons y ys)
  show ?case
  proof (cases "y = x")
    case True
    then show ?thesis by (simp add: splice_def)
  next
    case False
    with Cons.prems have mem: "x \<in> set ys" by simp
    then have "indexOf x ys > - 1" by (simp add: indexOf_present_iff)
    with False mem Cons.IH show ?thesis by (simp add: Let_def splice_step)
  qed
qed

text \<open>What \<^verbatim>\<open>find\<close> returns is the first element that satisfies the predicate.\<close>

lemma find_split:
  "List.find P xs = Some x \<Longrightarrow>
     \<exists>pre post. xs = pre @ x # post \<and> P x \<and> list_all (\<lambda>y. \<not> P y) pre"
proof (induction xs)
  case Nil
  then show ?case by simp
next
  case (Cons y ys)
  show ?case
  proof (cases "P y")
    case True
    with Cons.prems have "x = y" by simp
    with True have "y # ys = [] @ x # ys \<and> P x \<and> list_all (\<lambda>y. \<not> P y) []" by simp
    then show ?thesis by blast
  next
    case False
    with Cons obtain pre post where "ys = pre @ x # post" "P x" "list_all (\<lambda>y. \<not> P y) pre"
      by auto
    with False have "y # ys = (y # pre) @ x # post \<and> P x \<and> list_all (\<lambda>y. \<not> P y) (y # pre)"
      by simp
    then show ?thesis by blast
  qed
qed

lemma find_None_hash:
  "List.find (\<lambda>elem. hash elem = hash file) docs = None \<Longrightarrow> hash file \<notin> set (map hash docs)"
  by (auto simp: find_None_iff)

section \<open>The eviction loop\<close>

text \<open>The loop can only exit when the capacity is at least 1.\<close>

lemma evict_Some_capacity:
  "evict s = Some s' \<Longrightarrow> 1 \<le> this_numRecentDocs s"
proof (rule evict.raw_induct[where P="\<lambda>s s'. 1 \<le> this_numRecentDocs s"])
  fix f s s'
  assume IH: "\<And>x y. f x = Some y \<Longrightarrow> 1 \<le> this_numRecentDocs x"
    and body: "(if this_numRecentDocs s - 1 < int (length (this_recentDocs s))
                then f (s\<lparr>this_recentDocs := shift (this_recentDocs s)\<rparr>)
                else Some s) = Some s'"
  show "1 \<le> this_numRecentDocs s"
  proof (cases "this_numRecentDocs s - 1 < int (length (this_recentDocs s))")
    case True
    with body have "f (s\<lparr>this_recentDocs := shift (this_recentDocs s)\<rparr>) = Some s'" by simp
    from IH[OF this] show ?thesis by simp
  next
    case False
    then show ?thesis by simp
  qed
qed

lemma evict_diverges: "this_numRecentDocs s < 1 \<Longrightarrow> evict s = None"
  using evict_Some_capacity[of s] by (cases "evict s") auto

text \<open>
  With a capacity of at least 1 the loop exits, and it leaves the last
  \<open>capacity - 1\<close> entries (all of them when there are fewer).
\<close>

lemma evict_closed:
  "1 \<le> this_numRecentDocs s \<Longrightarrow>
   evict s = Some (s\<lparr>this_recentDocs :=
      drop (length (this_recentDocs s) - nat (this_numRecentDocs s - 1)) (this_recentDocs s)\<rparr>)"
proof (induction "length (this_recentDocs s)" arbitrary: s)
  case 0
  then show ?case by (subst evict.simps) simp
next
  case (Suc k)
  then obtain d ds where ds: "this_recentDocs s = d # ds"
    by (cases "this_recentDocs s") auto
  show ?case
  proof (cases "int (length (this_recentDocs s)) > this_numRecentDocs s - 1")
    case True
    have "evict s = evict (s\<lparr>this_recentDocs := ds\<rparr>)"
      using True ds by (subst evict.simps) (simp add: shift_def)
    also have "\<dots> = Some (s\<lparr>this_recentDocs := ds\<rparr>\<lparr>this_recentDocs :=
      drop (length ds - nat (this_numRecentDocs s - 1)) ds\<rparr>)"
      using Suc.hyps(1)[of "s\<lparr>this_recentDocs := ds\<rparr>"] Suc.hyps(2) Suc.prems ds by simp
    also have "drop (length ds - nat (this_numRecentDocs s - 1)) ds =
       drop (length (this_recentDocs s) - nat (this_numRecentDocs s - 1)) (this_recentDocs s)"
      using True ds Suc.prems by (simp add: Suc_diff_le nat_le_iff)
    finally show ?thesis by simp
  next
    case False
    then show ?thesis by (subst evict.simps) simp
  qed
qed

section \<open>The two paths of addRecentDocument\<close>

lemma addRecentDocument_found:
  assumes "List.find (\<lambda>elem. hash elem = hash file) (this_recentDocs s) = Some found"
  shows "addRecentDocument file s =
           Some (s\<lparr>this_recentDocs := remove1 found (this_recentDocs s) @ [found]\<rparr>)"
proof -
  from assms have "found \<in> set (this_recentDocs s)"
    by (auto dest: find_split)
  then show ?thesis using assms
    by (simp add: addRecentDocument_def push_def splice_indexOf)
qed

lemma addRecentDocument_new:
  assumes "List.find (\<lambda>elem. hash elem = hash file) (this_recentDocs s) = None"
    and "1 \<le> this_numRecentDocs s"
  shows "addRecentDocument file s =
           Some (s\<lparr>this_recentDocs :=
              drop (length (this_recentDocs s) - nat (this_numRecentDocs s - 1)) (this_recentDocs s)
                @ [file]\<rparr>)"
  using assms by (simp add: addRecentDocument_def push_def evict_closed)

lemma addRecentDocument_diverges:
  assumes "List.find (\<lambda>elem. hash elem = hash file) (this_recentDocs s) = None"
    and "this_numRecentDocs s < 1"
  shows "addRecentDocument file s = None"
  using assms by (simp add: addRecentDocument_def evict_diverges)

lemma distinct_hash_move:
  assumes "List.find (\<lambda>elem. hash elem = h) docs = Some found"
    and "distinct (map hash docs)"
  shows "distinct (map hash (remove1 found docs @ [found]))"
proof -
  from find_split[OF assms(1)] obtain pre post where
    docs: "docs = pre @ found # post" and pre: "list_all (\<lambda>y. hash y \<noteq> h) pre" and h: "hash found = h"
    by blast
  from pre h have "found \<notin> set pre" by (auto simp: list_all_iff)
  then have "remove1 found docs = pre @ post" by (simp add: docs remove1_append)
  with assms(2) docs show ?thesis by auto
qed

text \<open>One call keeps the invariant, for every capacity of at least 1.\<close>

lemma addRecentDocument_inv:
  assumes "recent_inv c s" and "1 \<le> c"
  shows "\<exists>s'. addRecentDocument file s = Some s' \<and> recent_inv c s'"
proof (cases "List.find (\<lambda>elem. hash elem = hash file) (this_recentDocs s)")
  case None
  let ?kept = "drop (length (this_recentDocs s) - nat (c - 1)) (this_recentDocs s)"
  from assms have cap: "1 \<le> this_numRecentDocs s" "this_numRecentDocs s = c"
    by (simp_all add: recent_inv_def)
  have len: "int (length ?kept) \<le> c - 1" using assms(2) by simp
  have "set ?kept \<subseteq> set (this_recentDocs s)" by (rule set_drop_subset)
  with find_None_hash[OF None] have fresh: "hash file \<notin> set (map hash ?kept)" by auto
  have "distinct (map hash ?kept)"
    using assms(1) by (simp add: recent_inv_def drop_map[symmetric] del: drop_map)
  with fresh len cap show ?thesis
    by (simp add: addRecentDocument_new[OF None cap(1)] recent_inv_def)
next
  case (Some found)
  from assms(1) have "distinct (map hash (this_recentDocs s))" by (simp add: recent_inv_def)
  moreover from Some have "found \<in> set (this_recentDocs s)" by (auto dest: find_split)
  then have "length (remove1 found (this_recentDocs s) @ [found]) = length (this_recentDocs s)"
    using length_pos_if_in_set[of found "this_recentDocs s"] by (simp add: length_remove1)
  ultimately show ?thesis using distinct_hash_move[OF Some] assms(1)
    by (simp add: addRecentDocument_found[OF Some] recent_inv_def del: length_append)
qed

lemma recordAll_inv:
  "recent_inv c s \<Longrightarrow> 1 \<le> c \<Longrightarrow> \<exists>s'. recordAll files s = Some s' \<and> recent_inv c s'"
proof (induction files arbitrary: s)
  case Nil
  then show ?case by simp
next
  case (Cons f fs)
  from addRecentDocument_inv[OF Cons.prems] obtain s1 where
    "addRecentDocument f s = Some s1" "recent_inv c s1" by blast
  with Cons.IH[OF this(2) Cons.prems(2)] show ?case by simp
qed

lemma find_hash_present:
  "hash file \<in> hash ` set docs \<Longrightarrow> \<exists>found. List.find (\<lambda>elem. hash elem = hash file) docs = Some found"
  by (cases "List.find (\<lambda>elem. hash elem = hash file) docs") (auto simp: find_None_iff)

text \<open>A sequence of calls splits at any point.\<close>

lemma recordAll_append:
  "recordAll (xs @ ys) s = (case recordAll xs s of None \<Rightarrow> None | Some s' \<Rightarrow> recordAll ys s')"
  by (induction xs arbitrary: s) (auto split: option.splits)

text \<open>
  From an empty list and with a capacity of at least 1, recording files with pairwise
  different hashes leaves the last \<open>capacity\<close> of them, in the order of recording.
\<close>

lemma recordAll_fresh:
  assumes "1 \<le> this_numRecentDocs s" and "this_recentDocs s = []"
  shows "distinct (map hash fs) \<Longrightarrow>
         recordAll fs s = Some (s\<lparr>this_recentDocs := drop (length fs - nat (this_numRecentDocs s)) fs\<rparr>)"
proof (induction fs rule: rev_induct)
  case Nil
  with assms(2) show ?case by simp
next
  case (snoc f fs)
  let ?c = "nat (this_numRecentDocs s)"
  let ?d1 = "drop (length fs - ?c) fs"
  let ?s1 = "s\<lparr>this_recentDocs := ?d1\<rparr>"
  from snoc have run: "recordAll fs s = Some ?s1" by simp
  from snoc.prems have "hash f \<notin> hash ` set fs" by simp
  moreover have "set ?d1 \<subseteq> set fs" by (rule set_drop_subset)
  ultimately have "hash f \<notin> hash ` set ?d1" by blast
  then have none: "List.find (\<lambda>elem. hash elem = hash f) (this_recentDocs ?s1) = None"
    by (simp add: find_None_iff) (metis image_eqI)
  have cap: "1 \<le> this_numRecentDocs ?s1" using assms(1) by simp
  have "drop (length ?d1 - nat (this_numRecentDocs s - 1)) ?d1 @ [f]
          = drop (length (fs @ [f]) - ?c) (fs @ [f])"
  proof (cases "?c \<le> length fs")
    case True
    moreover from assms(1) have "?c - nat (this_numRecentDocs s - 1) = 1" by simp
    ultimately show ?thesis using assms(1) by (simp add: Suc_diff_le)
  next
    case False
    then show ?thesis using assms(1) by simp
  qed
  with addRecentDocument_new[OF none cap]
  have "addRecentDocument f ?s1 = Some (s\<lparr>this_recentDocs := drop (length (fs @ [f]) - ?c) (fs @ [f])\<rparr>)"
    by simp
  with run show ?case by (simp add: recordAll_append)
qed

section \<open>Removal from the quicklook and notification arrays\<close>

lemma qlsplice_present:
  "zql \<in> set (this_ql s) \<Longrightarrow> qlsplice zql s = (True, s\<lparr>this_ql := remove1 zql (this_ql s)\<rparr>)"
  by (simp add: qlsplice_def indexOf_present_iff splice_indexOf)

lemma qlsplice_absent: "zql \<notin> set (this_ql s) \<Longrightarrow> qlsplice zql s = (False, s)"
  by (simp add: qlsplice_def indexOf_absent)

lemma notifySplice_present:
  "ntf \<in> set (this_n s) \<Longrightarrow>
     notifySplice ntf s = (s\<lparr>this_n := remove1 ntf (this_n s)\<rparr>, map MoveUp (remove1 ntf (this_n s)))"
  by (simp add: notifySplice_def indexOf_present_iff splice_indexOf)

lemma notifySplice_absent:
  "ntf \<notin> set (this_n s) \<Longrightarrow> notifySplice ntf s = (s, map MoveUp (this_n s))"
  by (simp add: notifySplice_def indexOf_absent)

text \<open>
  The notification array never holds a reference twice: the constructor leaves it empty,
  \<^verbatim>\<open>notify\<close> pushes a newly made object, which no array holds yet, and
  \<^verbatim>\<open>notifySplice\<close> only removes.
\<close>

lemma constructor_distinct: "distinct (this_n ZettlrBody_constructor)"
  by (simp add: ZettlrBody_constructor_def)

lemma notify_distinct:
  "distinct (this_n s) \<Longrightarrow> ntf \<notin> set (this_n s) \<Longrightarrow> distinct (this_n (notify ntf s))"
  by (simp add: notify_def push_def)

lemma notifySplice_distinct:
  "distinct (this_n s) \<Longrightarrow> distinct (this_n (fst (notifySplice ntf s)))"
  by (cases "ntf \<in> set (this_n s)") (simp_all add: notifySplice_present notifySplice_absent)

text \<open>Counting the signals sent to one receiver.\<close>

lemma count_MoveUp: "count_list (map MoveUp hs) (MoveUp h) = count_list hs h"
  by (induction hs) auto

lemma count_list_distinct: "distinct hs \<Longrightarrow> count_list hs h = (if h \<in> set hs then 1 else 0)"
  by (induction hs) auto

section \<open>The claims\<close>

text \<open>
  Claim C1. Start from the body the constructor builds (empty list, capacity 10) and call
  \<^verbatim>\<open>addRecentDocument\<close> with any sequence of files: every call returns, and the list
  then holds at most 10 entries, no two of them with the same hash. The sequence is
  arbitrary, so this covers the list after each call of a longer sequence as well.
\<close>

theorem recent_docs_bounded_distinct:
  "\<exists>s'. recordAll files ZettlrBody_constructor = Some s'
        \<and> length (this_recentDocs s') \<le> 10
        \<and> distinct (map hash (this_recentDocs s'))"
proof -
  have "recent_inv 10 ZettlrBody_constructor"
    by (simp add: recent_inv_def ZettlrBody_constructor_def)
  from recordAll_inv[OF this, of files] show ?thesis
    by (auto simp: recent_inv_def)
qed

text \<open>
  Claim C2. Eviction is from the front, the least recent end. With the constructor's
  capacity of 10, recording any 11 files with pairwise different hashes leaves the last
  ten of them in the order of recording (the first is evicted). With capacity 3 and any
  four files \<open>A\<close>, \<open>B\<close>, \<open>C\<close>, \<open>D\<close> with pairwise different hashes, recording
  \<open>A\<close>, \<open>B\<close>, \<open>C\<close> and \<open>A\<close> again leaves \<open>[B, C, A]\<close>, and
  recording \<open>D\<close> after that leaves \<open>[C, A, D]\<close>.
\<close>

theorem eviction_from_front:
  assumes "length ds = 11" and "distinct (map hash ds)"
    and "distinct [hash A, hash B, hash C, hash D]"
  shows "recordAll ds ZettlrBody_constructor
           = Some (ZettlrBody_constructor\<lparr>this_recentDocs := tl ds\<rparr>)
       \<and> recordAll [A, B, C, A] (ZettlrBody_constructor\<lparr>this_numRecentDocs := 3\<rparr>)
           = Some (ZettlrBody_constructor\<lparr>this_numRecentDocs := 3, this_recentDocs := [B, C, A]\<rparr>)
       \<and> recordAll [A, B, C, A, D] (ZettlrBody_constructor\<lparr>this_numRecentDocs := 3\<rparr>)
           = Some (ZettlrBody_constructor\<lparr>this_numRecentDocs := 3, this_recentDocs := [C, A, D]\<rparr>)"
proof (intro conjI)
  have "recordAll ds ZettlrBody_constructor
          = Some (ZettlrBody_constructor\<lparr>this_recentDocs :=
                    drop (length ds - nat (this_numRecentDocs ZettlrBody_constructor)) ds\<rparr>)"
    by (rule recordAll_fresh) (simp_all add: ZettlrBody_constructor_def assms(2))
  with assms(1) show "recordAll ds ZettlrBody_constructor
           = Some (ZettlrBody_constructor\<lparr>this_recentDocs := tl ds\<rparr>)"
    by (simp add: ZettlrBody_constructor_def drop_Suc)
next
  let ?s3 = "ZettlrBody_constructor\<lparr>this_numRecentDocs := 3\<rparr>"
  have abc: "recordAll [A, B, C] ?s3 = Some (?s3\<lparr>this_recentDocs := [A, B, C]\<rparr>)"
    using assms(3) recordAll_fresh[of ?s3 "[A, B, C]"] by (simp add: ZettlrBody_constructor_def)
  have a: "addRecentDocument A (?s3\<lparr>this_recentDocs := [A, B, C]\<rparr>)
             = Some (?s3\<lparr>this_recentDocs := [B, C, A]\<rparr>)"
    by (subst addRecentDocument_found[where found = A]) simp_all
  have d: "addRecentDocument D (?s3\<lparr>this_recentDocs := [B, C, A]\<rparr>)
             = Some (?s3\<lparr>this_recentDocs := [C, A, D]\<rparr>)"
    using assms(3) by (subst addRecentDocument_new) (simp_all add: ZettlrBody_constructor_def)
  from abc a show "recordAll [A, B, C, A] ?s3
           = Some (ZettlrBody_constructor\<lparr>this_numRecentDocs := 3, this_recentDocs := [B, C, A]\<rparr>)"
    using recordAll_append[of "[A, B, C]" "[A]" ?s3] by simp
  from abc a d show "recordAll [A, B, C, A, D] ?s3
           = Some (ZettlrBody_constructor\<lparr>this_numRecentDocs := 3, this_recentDocs := [C, A, D]\<rparr>)"
    using recordAll_append[of "[A, B, C]" "[A, D]" ?s3] by simp
qed

theorem eviction_from_front_witness:
  "recordAll
     [\<lparr>hash = 1, name = ''D1''\<rparr>, \<lparr>hash = 2, name = ''D2''\<rparr>, \<lparr>hash = 3, name = ''D3''\<rparr>,
      \<lparr>hash = 4, name = ''D4''\<rparr>, \<lparr>hash = 5, name = ''D5''\<rparr>, \<lparr>hash = 6, name = ''D6''\<rparr>,
      \<lparr>hash = 7, name = ''D7''\<rparr>, \<lparr>hash = 8, name = ''D8''\<rparr>, \<lparr>hash = 9, name = ''D9''\<rparr>,
      \<lparr>hash = 10, name = ''D10''\<rparr>, \<lparr>hash = 11, name = ''D11''\<rparr>]
     ZettlrBody_constructor
   = Some (ZettlrBody_constructor\<lparr>this_recentDocs :=
     [\<lparr>hash = 2, name = ''D2''\<rparr>, \<lparr>hash = 3, name = ''D3''\<rparr>,
      \<lparr>hash = 4, name = ''D4''\<rparr>, \<lparr>hash = 5, name = ''D5''\<rparr>, \<lparr>hash = 6, name = ''D6''\<rparr>,
      \<lparr>hash = 7, name = ''D7''\<rparr>, \<lparr>hash = 8, name = ''D8''\<rparr>, \<lparr>hash = 9, name = ''D9''\<rparr>,
      \<lparr>hash = 10, name = ''D10''\<rparr>, \<lparr>hash = 11, name = ''D11''\<rparr>]\<rparr>)
   \<and> recordAll [\<lparr>hash = 1, name = ''A''\<rparr>, \<lparr>hash = 2, name = ''B''\<rparr>, \<lparr>hash = 3, name = ''C''\<rparr>,
                 \<lparr>hash = 1, name = ''A''\<rparr>]
        (ZettlrBody_constructor\<lparr>this_numRecentDocs := 3\<rparr>)
     = Some (ZettlrBody_constructor\<lparr>this_numRecentDocs := 3, this_recentDocs :=
          [\<lparr>hash = 2, name = ''B''\<rparr>, \<lparr>hash = 3, name = ''C''\<rparr>, \<lparr>hash = 1, name = ''A''\<rparr>]\<rparr>)
   \<and> recordAll [\<lparr>hash = 1, name = ''A''\<rparr>, \<lparr>hash = 2, name = ''B''\<rparr>, \<lparr>hash = 3, name = ''C''\<rparr>,
                 \<lparr>hash = 1, name = ''A''\<rparr>, \<lparr>hash = 4, name = ''D''\<rparr>]
        (ZettlrBody_constructor\<lparr>this_numRecentDocs := 3\<rparr>)
     = Some (ZettlrBody_constructor\<lparr>this_numRecentDocs := 3, this_recentDocs :=
          [\<lparr>hash = 3, name = ''C''\<rparr>, \<lparr>hash = 1, name = ''A''\<rparr>, \<lparr>hash = 4, name = ''D''\<rparr>]\<rparr>)"
  using eviction_from_front [of
     "[\<lparr>hash = 1, name = ''D1''\<rparr>, \<lparr>hash = 2, name = ''D2''\<rparr>, \<lparr>hash = 3, name = ''D3''\<rparr>,
      \<lparr>hash = 4, name = ''D4''\<rparr>, \<lparr>hash = 5, name = ''D5''\<rparr>, \<lparr>hash = 6, name = ''D6''\<rparr>,
      \<lparr>hash = 7, name = ''D7''\<rparr>, \<lparr>hash = 8, name = ''D8''\<rparr>, \<lparr>hash = 9, name = ''D9''\<rparr>,
      \<lparr>hash = 10, name = ''D10''\<rparr>, \<lparr>hash = 11, name = ''D11''\<rparr>]"
     "\<lparr>hash = 1, name = ''A''\<rparr>" "\<lparr>hash = 2, name = ''B''\<rparr>" "\<lparr>hash = 3, name = ''C''\<rparr>"
     "\<lparr>hash = 4, name = ''D''\<rparr>"]
  by simp

text \<open>
  Claim C3. When the list holds an entry with the file's hash, whatever the list and the
  capacity are, \<^verbatim>\<open>addRecentDocument\<close> returns, and the first entry with that hash
  (\<open>found\<close>, after the entries \<open>pre\<close> without it) is moved to the last position: the
  entries before and after it keep their order, the length is unchanged, and the list
  holds the same entries as before, so nothing is evicted. No other field of the body
  changes.
\<close>

theorem readd_moves_to_last:
  assumes "hash file \<in> hash ` set (this_recentDocs s)"
  shows "\<exists>pre found post.
           this_recentDocs s = pre @ found # post
         \<and> hash found = hash file
         \<and> hash file \<notin> hash ` set pre
         \<and> addRecentDocument file s = Some (s\<lparr>this_recentDocs := pre @ post @ [found]\<rparr>)
         \<and> length (pre @ post @ [found]) = length (this_recentDocs s)
         \<and> mset (pre @ post @ [found]) = mset (this_recentDocs s)"
proof -
  from find_hash_present[OF assms] obtain found where
    f: "List.find (\<lambda>elem. hash elem = hash file) (this_recentDocs s) = Some found" by blast
  from find_split[OF f] obtain pre post where
    docs: "this_recentDocs s = pre @ found # post" and h: "hash found = hash file"
    and pre: "list_all (\<lambda>y. hash y \<noteq> hash file) pre" by blast
  from pre have npre: "hash file \<notin> hash ` set pre" by (auto simp: list_all_iff)
  with h have "found \<notin> set pre" by (metis image_eqI)
  then have "remove1 found (this_recentDocs s) = pre @ post" by (simp add: docs remove1_append)
  with addRecentDocument_found[OF f]
  have "addRecentDocument file s = Some (s\<lparr>this_recentDocs := pre @ post @ [found]\<rparr>)" by simp
  with docs h npre show ?thesis by (intro exI[of _ pre] exI[of _ found] exI[of _ post]) simp
qed

theorem readd_moves_to_last_witness:
  "hash \<lparr>hash = 2, name = ''other''\<rparr>
     \<in> hash ` set (this_recentDocs (ZettlrBody_constructor\<lparr>this_recentDocs :=
          [\<lparr>hash = 1, name = ''a''\<rparr>, \<lparr>hash = 2, name = ''b''\<rparr>, \<lparr>hash = 3, name = ''c''\<rparr>]\<rparr>))
   \<and> addRecentDocument \<lparr>hash = 2, name = ''other''\<rparr>
        (ZettlrBody_constructor\<lparr>this_recentDocs :=
          [\<lparr>hash = 1, name = ''a''\<rparr>, \<lparr>hash = 2, name = ''b''\<rparr>, \<lparr>hash = 3, name = ''c''\<rparr>]\<rparr>)
     = Some (ZettlrBody_constructor\<lparr>this_recentDocs :=
          [\<lparr>hash = 1, name = ''a''\<rparr>, \<lparr>hash = 3, name = ''c''\<rparr>, \<lparr>hash = 2, name = ''b''\<rparr>]\<rparr>)"
  using readd_moves_to_last [of "\<lparr>hash = 2, name = ''other''\<rparr>"
     "ZettlrBody_constructor\<lparr>this_recentDocs :=
          [\<lparr>hash = 1, name = ''a''\<rparr>, \<lparr>hash = 2, name = ''b''\<rparr>, \<lparr>hash = 3, name = ''c''\<rparr>]\<rparr>"]
  by (auto simp: Cons_eq_append_conv append_eq_Cons_conv)

text \<open>
  Claim C5, as amended. \<^verbatim>\<open>addRecentDocument\<close> returns exactly when the capacity is at
  least 1 or the list already holds an entry with the file's hash. It is total for every
  capacity of at least 1. With capacity 0 and a file that is not in the list, the test of
  the loop is \<^verbatim>\<open>length > -1\<close>, which is true of the empty list too, and
  \<^verbatim>\<open>shift\<close> on the empty list changes nothing: the call never returns.
\<close>

theorem addRecentDocument_returns_iff:
  "(\<exists>s'. addRecentDocument file s = Some s')
     = (1 \<le> this_numRecentDocs s \<or> hash file \<in> hash ` set (this_recentDocs s))"
proof (cases "List.find (\<lambda>elem. hash elem = hash file) (this_recentDocs s)")
  case None
  then have absent: "hash file \<notin> hash ` set (this_recentDocs s)" by (auto simp: find_None_iff)
  show ?thesis
  proof (cases "1 \<le> this_numRecentDocs s")
    case True
    then show ?thesis by (simp add: addRecentDocument_new[OF None True])
  next
    case False
    then have "this_numRecentDocs s < 1" by simp
    from addRecentDocument_diverges[OF None this] absent False show ?thesis by simp
  qed
next
  case (Some found)
  then have "hash file \<in> hash ` set (this_recentDocs s)" by (auto dest!: find_split)
  then show ?thesis by (simp add: addRecentDocument_found[OF Some])
qed

theorem addRecentDocument_returns_iff_witness:
  "(\<exists>s'. addRecentDocument \<lparr>hash = 1, name = ''a''\<rparr>
            (ZettlrBody_constructor\<lparr>this_numRecentDocs := 1\<rparr>) = Some s')
   \<and> \<not> (\<exists>s'. addRecentDocument \<lparr>hash = 1, name = ''a''\<rparr>
            (ZettlrBody_constructor\<lparr>this_numRecentDocs := 0\<rparr>) = Some s')"
  using addRecentDocument_returns_iff [of "\<lparr>hash = 1, name = ''a''\<rparr>" "ZettlrBody_constructor\<lparr>this_numRecentDocs := 1\<rparr>"]
    addRecentDocument_returns_iff [of "\<lparr>hash = 1, name = ''a''\<rparr>" "ZettlrBody_constructor\<lparr>this_numRecentDocs := 0\<rparr>"]
  by (simp add: ZettlrBody_constructor_def)

text \<open>
  Claim C5 as stated fails: with capacity 0 and the empty list, recording a file does not
  terminate.
\<close>

theorem capacity_zero_never_returns:
  "addRecentDocument \<lparr>hash = 1, name = ''a''\<rparr> (ZettlrBody_constructor\<lparr>this_numRecentDocs := 0\<rparr>) = None"
  by (rule addRecentDocument_diverges) (simp_all add: ZettlrBody_constructor_def)

text \<open>
  Claim C9. When \<^verbatim>\<open>find\<close> returns an entry \<open>found\<close> for the file's hash, the call
  pushes \<open>found\<close> itself: the last entry of the new list is \<open>found\<close>, with the name
  it was stored with, whatever \<open>name file\<close> is, and the new list holds exactly the
  entries of the old one, so no stored name has changed. In particular, a file recorded
  on a new body and recorded again under another name stays in the list with the name
  of the first recording.
\<close>

theorem readd_keeps_name:
  assumes "List.find (\<lambda>elem. hash elem = hash file) (this_recentDocs s) = Some found"
    and "hash again = hash first"
  shows "(\<exists>s'. addRecentDocument file s = Some s'
             \<and> last (this_recentDocs s') = found
             \<and> name (last (this_recentDocs s')) = name found
             \<and> mset (this_recentDocs s') = mset (this_recentDocs s))
       \<and> recordAll [first, again] ZettlrBody_constructor
           = Some (ZettlrBody_constructor\<lparr>this_recentDocs := [first]\<rparr>)"
proof
  from assms(1) have "found \<in> set (this_recentDocs s)" by (auto dest: find_split)
  then have "mset (remove1 found (this_recentDocs s) @ [found]) = mset (this_recentDocs s)"
    by simp
  then show "\<exists>s'. addRecentDocument file s = Some s'
             \<and> last (this_recentDocs s') = found
             \<and> name (last (this_recentDocs s')) = name found
             \<and> mset (this_recentDocs s') = mset (this_recentDocs s)"
    by (simp add: addRecentDocument_found[OF assms(1)])
next
  let ?s1 = "ZettlrBody_constructor\<lparr>this_recentDocs := [first]\<rparr>"
  have one: "addRecentDocument first ZettlrBody_constructor = Some ?s1"
    by (subst addRecentDocument_new) (simp_all add: ZettlrBody_constructor_def)
  have "List.find (\<lambda>elem. hash elem = hash again) (this_recentDocs ?s1) = Some first"
    using assms(2) by simp
  from addRecentDocument_found[OF this] have "addRecentDocument again ?s1 = Some ?s1"
    by simp
  with one show "recordAll [first, again] ZettlrBody_constructor = Some ?s1" by simp
qed

theorem readd_keeps_name_witness:
  "List.find (\<lambda>elem. hash elem = hash \<lparr>hash = 1, name = ''renamed''\<rparr>)
     (this_recentDocs (ZettlrBody_constructor\<lparr>this_recentDocs :=
          [\<lparr>hash = 1, name = ''first''\<rparr>, \<lparr>hash = 2, name = ''b''\<rparr>]\<rparr>))
     = Some \<lparr>hash = 1, name = ''first''\<rparr>
   \<and> (\<exists>s'. addRecentDocument \<lparr>hash = 1, name = ''renamed''\<rparr>
        (ZettlrBody_constructor\<lparr>this_recentDocs :=
          [\<lparr>hash = 1, name = ''first''\<rparr>, \<lparr>hash = 2, name = ''b''\<rparr>]\<rparr>) = Some s'
      \<and> name (last (this_recentDocs s')) = ''first'')
   \<and> recordAll [\<lparr>hash = 1, name = ''first''\<rparr>, \<lparr>hash = 1, name = ''renamed''\<rparr>] ZettlrBody_constructor
       = Some (ZettlrBody_constructor\<lparr>this_recentDocs := [\<lparr>hash = 1, name = ''first''\<rparr>]\<rparr>)"
  using readd_keeps_name [of "\<lparr>hash = 1, name = ''renamed''\<rparr>"
     "ZettlrBody_constructor\<lparr>this_recentDocs :=
          [\<lparr>hash = 1, name = ''first''\<rparr>, \<lparr>hash = 2, name = ''b''\<rparr>]\<rparr>"
     "\<lparr>hash = 1, name = ''first''\<rparr>" "\<lparr>hash = 1, name = ''renamed''\<rparr>"
     "\<lparr>hash = 1, name = ''first''\<rparr>"]
  by auto

text \<open>
  Claim C4. Let closing a quicklook have, on the array of quicklooks, the effect of
  \<^verbatim>\<open>qlsplice\<close> called with that quicklook. Then for every body, whatever its array of
  quicklooks holds, \<^verbatim>\<open>closeQuicklook\<close> returns, and the array is empty afterwards.
\<close>

theorem closeQuicklook_terminates_empty:
  assumes "\<And>zql s. this_ql (close zql s) = this_ql (snd (qlsplice zql s))"
  shows "\<exists>s'. closeQuicklook close s = Some s' \<and> this_ql s' = []"
proof (induction "length (this_ql s)" arbitrary: s)
  case 0
  then show ?case by (subst closeQuicklook.simps) simp
next
  case (Suc k)
  then obtain h hs where ql: "this_ql s = h # hs" by (cases "this_ql s") auto
  then have "this_ql (close (this_ql s ! 0) s) = hs"
    by (simp add: assms qlsplice_present)
  with Suc.hyps(2) ql have "k = length (this_ql (close (this_ql s ! 0) s))" by simp
  from Suc.hyps(1)[OF this] obtain s' where
    "closeQuicklook close (close (this_ql s ! 0) s) = Some s'" "this_ql s' = []" by blast
  with ql show ?case by (subst closeQuicklook.simps) simp
qed

theorem closeQuicklook_terminates_empty_witness:
  "\<exists>s'. closeQuicklook ZettlrQuicklook_close (ZettlrBody_constructor\<lparr>this_ql := [4, 7, 9]\<rparr>) = Some s'
        \<and> this_ql s' = []"
  using closeQuicklook_terminates_empty [of ZettlrQuicklook_close "ZettlrBody_constructor\<lparr>this_ql := [4, 7, 9]\<rparr>"]
  by (simp add: ZettlrQuicklook_close_def)

text \<open>
  Claim C6. Removing a handle that the array does not hold leaves the body as it was:
  \<^verbatim>\<open>qlsplice\<close> returns false and the unchanged body, and \<^verbatim>\<open>notifySplice\<close> returns
  the unchanged body. \<^verbatim>\<open>qlsplice\<close> returns true exactly when the array holds the
  handle, and then the first occurrence of the handle has been removed. Neither method has
  a path that throws: both are total functions without an error result.
\<close>

theorem splice_absent_noop:
  "fst (qlsplice zql s) = (zql \<in> set (this_ql s))
   \<and> (zql \<notin> set (this_ql s) \<longrightarrow> qlsplice zql s = (False, s))
   \<and> (zql \<in> set (this_ql s) \<longrightarrow>
        qlsplice zql s = (True, s\<lparr>this_ql := remove1 zql (this_ql s)\<rparr>))
   \<and> (ntf \<notin> set (this_n s) \<longrightarrow> fst (notifySplice ntf s) = s)"
  by (cases "zql \<in> set (this_ql s)")
     (simp_all add: qlsplice_present qlsplice_absent notifySplice_absent)

theorem splice_absent_noop_witness:
  "qlsplice 5 (ZettlrBody_constructor\<lparr>this_ql := [1, 2], this_n := [3, 4]\<rparr>)
     = (False, ZettlrBody_constructor\<lparr>this_ql := [1, 2], this_n := [3, 4]\<rparr>)
   \<and> fst (notifySplice 5 (ZettlrBody_constructor\<lparr>this_ql := [1, 2], this_n := [3, 4]\<rparr>))
     = ZettlrBody_constructor\<lparr>this_ql := [1, 2], this_n := [3, 4]\<rparr>
   \<and> qlsplice 1 (ZettlrBody_constructor\<lparr>this_ql := [1, 2], this_n := [3, 4]\<rparr>)
     = (True, ZettlrBody_constructor\<lparr>this_ql := [2], this_n := [3, 4]\<rparr>)"
  using splice_absent_noop [of 5 "ZettlrBody_constructor\<lparr>this_ql := [1, 2], this_n := [3, 4]\<rparr>" 5]
    splice_absent_noop [of 1 "ZettlrBody_constructor\<lparr>this_ql := [1, 2], this_n := [3, 4]\<rparr>" 5]
  by (simp add: ZettlrBody_constructor_def)

text \<open>
  Claim C7. Let the notification array hold \<open>ntf\<close> (and no reference twice, as always).
  After \<^verbatim>\<open>notifySplice\<close> the array holds the other handles in their order, every one
  of them has received exactly one \<^verbatim>\<open>moveUp\<close>, the removed handle none, and no other
  signal was sent.
\<close>

theorem notifySplice_moveUp_remaining:
  assumes "distinct (this_n s)" and "ntf \<in> set (this_n s)"
  shows "this_n (fst (notifySplice ntf s)) = remove1 ntf (this_n s)
       \<and> set (this_n (fst (notifySplice ntf s))) = set (this_n s) - {ntf}
       \<and> (\<forall>h \<in> set (this_n s) - {ntf}. count_list (snd (notifySplice ntf s)) (MoveUp h) = 1)
       \<and> count_list (snd (notifySplice ntf s)) (MoveUp ntf) = 0
       \<and> length (snd (notifySplice ntf s)) = length (this_n s) - 1"
proof -
  let ?rest = "remove1 ntf (this_n s)"
  from assms(1) have d: "distinct ?rest" by simp
  from assms(1) have st: "set ?rest = set (this_n s) - {ntf}" by simp
  have run: "notifySplice ntf s = (s\<lparr>this_n := ?rest\<rparr>, map MoveUp ?rest)"
    using assms(2) by (rule notifySplice_present)
  have cnt: "count_list (map MoveUp ?rest) (MoveUp h) = (if h \<in> set (this_n s) - {ntf} then 1 else 0)"
    for h
    unfolding count_MoveUp count_list_distinct[OF d] st ..
  have len: "length (map MoveUp ?rest) = length (this_n s) - 1"
    using assms(2) by (simp add: length_remove1)
  show ?thesis
    unfolding run fst_conv snd_conv using st cnt len by simp
qed

theorem notifySplice_moveUp_remaining_witness:
  "distinct (this_n (ZettlrBody_constructor\<lparr>this_n := [3, 5, 8]\<rparr>))
   \<and> 5 \<in> set (this_n (ZettlrBody_constructor\<lparr>this_n := [3, 5, 8]\<rparr>))
   \<and> notifySplice 5 (ZettlrBody_constructor\<lparr>this_n := [3, 5, 8]\<rparr>)
       = (ZettlrBody_constructor\<lparr>this_n := [3, 8]\<rparr>, [MoveUp 3, MoveUp 8])
   \<and> count_list (snd (notifySplice 5 (ZettlrBody_constructor\<lparr>this_n := [3, 5, 8]\<rparr>))) (MoveUp 3) = 1
   \<and> count_list (snd (notifySplice 5 (ZettlrBody_constructor\<lparr>this_n := [3, 5, 8]\<rparr>))) (MoveUp 8) = 1
   \<and> count_list (snd (notifySplice 5 (ZettlrBody_constructor\<lparr>this_n := [3, 5, 8]\<rparr>))) (MoveUp 5) = 0"
  using notifySplice_moveUp_remaining [of "ZettlrBody_constructor\<lparr>this_n := [3, 5, 8]\<rparr>" 5]
  by (simp add: ZettlrBody_constructor_def notifySplice_def splice_def)

text \<open>
  Claim C8. Whatever the file and the renderer's state are: when the user submits the
  prompt, exactly one message is sent, on the channel \<^verbatim>\<open>file-rename\<close>, with the value
  of the first form field as the name and the file's hash; when the user dismisses the
  prompt, no message is sent. For a file with hash 42 and the submitted value
  \<^verbatim>\<open>Notes\<close> the payload is \<^verbatim>\<open>{name: "Notes", hash: 42}\<close>.
\<close>

theorem file_rename_dispatch:
  "requestNewFileName (popup (Submit (Field nm v # others))) renderer file
     = Inr [(''file-rename'', \<lparr>payload_name = v, payload_hash = hash file\<rparr>)]
   \<and> requestNewFileName (popup Dismiss) renderer file = Inr []
   \<and> requestNewFileName (popup (Submit [Field ''name'' ''Notes''])) renderer \<lparr>hash = 42, name = old\<rparr>
     = Inr [(''file-rename'', \<lparr>payload_name = ''Notes'', payload_hash = 42\<rparr>)]"
  by (simp add: requestNewFileName_def popup_def Let_def)

text \<open>
  Outside the claim: a submitted form without any field makes the callback throw, since
  an empty array is truthy and has no element 0.
\<close>

lemma file_rename_empty_form:
  "requestNewFileName (popup (Submit [])) renderer file = Inl TypeError"
  by (simp add: requestNewFileName_def popup_def Let_def)

text \<open>
  Claim C10. When the notification array does not hold \<open>ntf\<close>, \<^verbatim>\<open>notifySplice\<close>
  leaves the body unchanged and still sends exactly one \<^verbatim>\<open>moveUp\<close> to every handle
  in the array, and no other signal.
\<close>

theorem notifySplice_absent_moveUp_all:
  assumes "distinct (this_n s)" and "ntf \<notin> set (this_n s)"
  shows "fst (notifySplice ntf s) = s
       \<and> (\<forall>h \<in> set (this_n s). count_list (snd (notifySplice ntf s)) (MoveUp h) = 1)
       \<and> length (snd (notifySplice ntf s)) = length (this_n s)"
  using assms by (simp add: notifySplice_absent count_MoveUp count_list_distinct)

theorem notifySplice_absent_moveUp_all_witness:
  "distinct (this_n (ZettlrBody_constructor\<lparr>this_n := [3, 5, 8]\<rparr>))
   \<and> 6 \<notin> set (this_n (ZettlrBody_constructor\<lparr>this_n := [3, 5, 8]\<rparr>))
   \<and> notifySplice 6 (ZettlrBody_constructor\<lparr>this_n := [3, 5, 8]\<rparr>)
       = (ZettlrBody_constructor\<lparr>this_n := [3, 5, 8]\<rparr>, [MoveUp 3, MoveUp 5, MoveUp 8])
   \<and> count_list (snd (notifySplice 6 (ZettlrBody_constructor\<lparr>this_n := [3, 5, 8]\<rparr>))) (MoveUp 3) = 1
   \<and> count_list (snd (notifySplice 6 (ZettlrBody_constructor\<lparr>this_n := [3, 5, 8]\<rparr>))) (MoveUp 5) = 1
   \<and> count_list (snd (notifySplice 6 (ZettlrBody_constructor\<lparr>this_n := [3, 5, 8]\<rparr>))) (MoveUp 8) = 1"
  using notifySplice_absent_moveUp_all [of "ZettlrBody_constructor\<lparr>this_n := [3, 5, 8]\<rparr>" 6]
  by (simp add: ZettlrBody_constructor_def notifySplice_def)

end
